theory Spec2Isabelle
  imports Complex_Main
begin

section \<open>JavaScript numbers\<close>

text \<open>
  The engine of \<^verbatim>\<open>src/utils/videoUtils.ts\<close> computes with JavaScript numbers. The
  numbers it reads from a parsed container and from its caller (timestamps, timescales,
  durations, the segment duration) are modelled as rationals, and \<open>+\<close>, \<open>-\<close>, \<open>*\<close> and
  \<open>/\<close> by a non-zero divisor are exact: the rounding of IEEE-754 doubles is not part of
  the model. Division by zero is written out, since JavaScript does not fail there: it
  yields an infinity or NaN, and every comparison with NaN is false. Signed zeros are
  not distinguished.
\<close>

type_synonym number = rat

datatype jsnum = Finite rat | PosInf | NegInf | NaN

fun js_div :: "jsnum \<Rightarrow> jsnum \<Rightarrow> jsnum" where
  "js_div (Finite a) (Finite b) =
     (if b = 0 then (if a = 0 then NaN else if 0 < a then PosInf else NegInf)
      else Finite (a / b))"
| "js_div (Finite a) PosInf = Finite 0"
| "js_div (Finite a) NegInf = Finite 0"
| "js_div PosInf (Finite b) = (if 0 \<le> b then PosInf else NegInf)"
| "js_div NegInf (Finite b) = (if 0 \<le> b then NegInf else PosInf)"
| "js_div _ _ = NaN"

fun js_ceil :: "jsnum \<Rightarrow> jsnum" where
  "js_ceil (Finite a) = Finite (of_int \<lceil>a\<rceil>)"
| "js_ceil x = x"

fun js_floor :: "jsnum \<Rightarrow> jsnum" where
  "js_floor (Finite a) = Finite (of_int \<lfloor>a\<rfloor>)"
| "js_floor x = x"

fun js_lt :: "jsnum \<Rightarrow> jsnum \<Rightarrow> bool" where
  "js_lt (Finite a) (Finite b) = (a < b)"
| "js_lt (Finite a) PosInf = True"
| "js_lt NegInf (Finite b) = True"
| "js_lt NegInf PosInf = True"
| "js_lt _ _ = False"

fun js_le :: "jsnum \<Rightarrow> jsnum \<Rightarrow> bool" where
  "js_le (Finite a) (Finite b) = (a \<le> b)"
| "js_le (Finite a) PosInf = True"
| "js_le NegInf (Finite b) = True"
| "js_le NegInf PosInf = True"
| "js_le PosInf PosInf = True"
| "js_le NegInf NegInf = True"
| "js_le _ _ = False"

section \<open>Data model\<close>

type_synonym url = string
type_synonym buffer = "nat list"
type_synonym date = nat

text \<open>
  A track object of \<^verbatim>\<open>MP4BoxInfo.tracks\<close>: the fields the engine reads or overwrites,
  and the rest of the descriptor (codec configuration and so on) as one opaque value
  that the object spread \<^verbatim>\<open>{ ...track }\<close> copies.
\<close>

record track =
  t_id :: nat
  t_timescale :: number
  t_nb_samples :: nat
  t_duration :: number
  t_created :: date
  t_modified :: date
  t_codec :: buffer

record sample =
  dts :: number
  cts :: number
  s_duration :: number
  s_size :: nat
  is_sync :: bool
  data :: buffer

record MP4BoxInfo =
  duration :: number
  timescale :: number
  tracks :: "track list"

text \<open>
  What MP4Box reports when a buffer is appended to a fresh file and flushed: either
  \<^verbatim>\<open>onError\<close>, or \<^verbatim>\<open>onReady(info)\<close> followed by the \<^verbatim>\<open>onSamples(id, user, samples)\<close>
  deliveries, in delivery order, that occur when extraction is switched on for every
  track, and then \<^verbatim>\<open>onFlush\<close>. A buffer on which MP4Box reports neither of the
  two is outside the model.
\<close>

datatype source = ParseError | Ready MP4BoxInfo "(nat \<times> sample list) list"

text \<open>
  Modelled from the spec: the container under construction that the adapter's
  \<^verbatim>\<open>createEmptyContainer()\<close>, \<^verbatim>\<open>addTrack(descriptor) -> newTrackId\<close> and
  \<^verbatim>\<open>addSample(trackId, payload, metadata)\<close> build (MP4Box's \<^verbatim>\<open>createFile\<close>,
  \<^verbatim>\<open>addTrack\<close>, \<^verbatim>\<open>addSample\<close>, which are not part of this repository). It holds the
  destination track descriptors in the order they were added, each under a fresh
  identifier, and the appended samples in append order, each with the identifier of
  the track it was appended to.
\<close>

record mp4file =
  f_tracks :: "track list"
  f_samples :: "(nat \<times> sample) list"

text \<open>
  Modelled from the spec: \<^verbatim>\<open>createEmptyContainer()\<close> (MP4Box's \<^verbatim>\<open>createFile()\<close>, not
  part of this repository) gives a container without tracks and samples.
\<close>

definition createFile :: mp4file where
  "createFile = \<lparr>f_tracks = [], f_samples = []\<rparr>"

text \<open>
  Modelled from the spec: \<^verbatim>\<open>addTrack(descriptor) -> newTrackId\<close> (MP4Box's \<^verbatim>\<open>addTrack\<close>,
  not part of this repository) appends a copy of the descriptor under a fresh
  identifier, the next one not yet used in the container, and returns that identifier.
\<close>

definition addTrack :: "track \<Rightarrow> mp4file \<Rightarrow> nat \<times> mp4file" where
  "addTrack options f =
     (let newId = Suc (length (f_tracks f))
      in (newId, f\<lparr>f_tracks := f_tracks f @ [options\<lparr>t_id := newId\<rparr>]\<rparr>))"

text \<open>
  Modelled from the spec: \<^verbatim>\<open>addSample(trackId, payload, metadata)\<close> (MP4Box's
  \<^verbatim>\<open>addSample\<close>, not part of this repository) appends the sample, with the given
  payload, to the track of that identifier.
\<close>

definition addSample :: "nat \<Rightarrow> buffer \<Rightarrow> sample \<Rightarrow> mp4file \<Rightarrow> mp4file" where
  "addSample trackId payload s f =
     f\<lparr>f_samples := f_samples f @ [(trackId, s\<lparr>data := payload\<rparr>)]\<rparr>"

text \<open>
  The surroundings of a call, taken as parameters: MP4Box's parser (\<open>parse\<close>) and
  writer (\<open>getBuffer\<close>), the browser's \<^verbatim>\<open>fetch\<close> (\<open>None\<close> when the request fails) and
  \<^verbatim>\<open>URL.createObjectURL\<close> on a blob of the given bytes, and the two readings of the
  clock that \<^verbatim>\<open>new Date()\<close> makes in \<^verbatim>\<open>combineVideos\<close>.
\<close>

record env =
  parse :: "buffer \<Rightarrow> source"
  getBuffer :: "mp4file \<Rightarrow> buffer"
  fetch :: "url \<Rightarrow> buffer option"
  createObjectURL :: "buffer \<Rightarrow> url"
  now_created :: date
  now_modified :: date

text \<open>
  The errors the code raises, named after their messages, and the final state of a
  promise. \<open>Pending\<close> is a promise that never settles.
\<close>

datatype error =
    ParseFailed
  | NoTracksFound
  | NoTracksFoundForSampleExtraction
  | InvalidVideoDuration
  | FailedToExtractAnyClips
  | NoVideosToCombine
  | FetchFailed

datatype 'a promise = Resolved 'a | Rejected error | Pending

text \<open>
  The calls a run makes to its surroundings, in order: every \<^verbatim>\<open>MP4Box.createFile()\<close>,
  every buffer handed to a parser, every file written out by \<^verbatim>\<open>getBuffer()\<close>, every
  \<^verbatim>\<open>fetch\<close> and every \<^verbatim>\<open>URL.createObjectURL\<close>.
\<close>

datatype event =
    CreateFile
  | AppendBuffer buffer
  | GetBuffer mp4file
  | Fetch url
  | CreateObjectURL buffer

section \<open>The helpers \<open>getInfo\<close> and \<open>getSamples\<close>\<close>

definition getInfo :: "env \<Rightarrow> buffer \<Rightarrow> event list \<times> MP4BoxInfo promise" where
  "getInfo e b =
     ([CreateFile, AppendBuffer b],
      case parse e b of
        ParseError \<Rightarrow> Rejected ParseFailed
      | Ready info batches \<Rightarrow>
          if tracks info = [] then Rejected NoTracksFound else Resolved info)"

text \<open>
  \<open>getSamples\<close> switches extraction on for \<^verbatim>\<open>info.tracks[0].id\<close> only, so only the
  deliveries for that identifier arrive; \<^verbatim>\<open>allSamples.push(...samples)\<close> collects them.
\<close>

definition getSamples :: "env \<Rightarrow> buffer \<Rightarrow> event list \<times> sample list promise" where
  "getSamples e b =
     ([CreateFile, AppendBuffer b],
      case parse e b of
        ParseError \<Rightarrow> Rejected ParseFailed
      | Ready info batches \<Rightarrow>
          (case tracks info of
             [] \<Rightarrow> Rejected NoTracksFoundForSampleExtraction
           | t0 # _ \<Rightarrow>
               Resolved (concat (map snd (filter (\<lambda>batch. fst batch = t_id t0) batches)))))"

section \<open>\<open>combineVideos\<close>\<close>

text \<open>
  One round of the loop over \<^verbatim>\<open>videoUrls\<close>: fetch, \<open>getInfo\<close>, \<open>getSamples\<close>, append
  every sample with both timestamps moved by \<open>accumulatedDuration\<close>, then add the
  source's \<^verbatim>\<open>info.duration\<close> to it. The state is \<open>(accumulatedDuration, outputFile)\<close>.
\<close>

definition offset_sample :: "number \<Rightarrow> sample \<Rightarrow> sample" where
  "offset_sample accumulatedDuration s =
     s\<lparr>dts := dts s + accumulatedDuration, cts := cts s + accumulatedDuration\<rparr>"

definition append_samples :: "nat \<Rightarrow> number \<Rightarrow> sample list \<Rightarrow> mp4file \<Rightarrow> mp4file" where
  "append_samples newTrackId accumulatedDuration samples outputFile =
     fold (\<lambda>s f. let s' = offset_sample accumulatedDuration s
                  in addSample newTrackId (data s') s' f) samples outputFile"

definition combine_step ::
  "env \<Rightarrow> nat \<Rightarrow> url \<Rightarrow> number \<times> mp4file \<Rightarrow> event list \<times> (number \<times> mp4file) promise" where
  "combine_step e newTrackId u st =
     (case fetch e u of
        None \<Rightarrow> ([Fetch u], Rejected FetchFailed)
      | Some buffer \<Rightarrow>
          (case getInfo e buffer of
             (ev1, Rejected err) \<Rightarrow> (Fetch u # ev1, Rejected err)
           | (ev1, Pending) \<Rightarrow> (Fetch u # ev1, Pending)
           | (ev1, Resolved info) \<Rightarrow>
               (case getSamples e buffer of
                  (ev2, Rejected err) \<Rightarrow> (Fetch u # ev1 @ ev2, Rejected err)
                | (ev2, Pending) \<Rightarrow> (Fetch u # ev1 @ ev2, Pending)
                | (ev2, Resolved samples) \<Rightarrow>
                    (Fetch u # ev1 @ ev2,
                     Resolved (fst st + duration info,
                               append_samples newTrackId (fst st) samples (snd st))))))"

fun combine_loop ::
  "env \<Rightarrow> nat \<Rightarrow> url list \<Rightarrow> number \<times> mp4file \<Rightarrow> event list \<times> (number \<times> mp4file) promise" where
  "combine_loop e newTrackId [] st = ([], Resolved st)"
| "combine_loop e newTrackId (u # us) st =
     (case combine_step e newTrackId u st of
        (ev, Rejected err) \<Rightarrow> (ev, Rejected err)
      | (ev, Pending) \<Rightarrow> (ev, Pending)
      | (ev, Resolved st') \<Rightarrow>
          (case combine_loop e newTrackId us st' of (ev', r) \<Rightarrow> (ev @ ev', r)))"

text \<open>
  The destination track: the first track of the first source, with the properties the
  code overwrites.
\<close>

definition combined_track :: "env \<Rightarrow> track \<Rightarrow> track" where
  "combined_track e firstTrack =
     firstTrack\<lparr>t_id := 1, t_created := now_created e, t_modified := now_modified e,
                t_nb_samples := 0, t_duration := 0\<rparr>"

text \<open>
  The body of \<open>combineVideos\<close> for two or more sources, up to the filled
  \<^verbatim>\<open>outputFile\<close> (lines 179 to 214). The first URL is fetched and parsed twice, once
  for the track layout and once in the loop. \<open>getInfo\<close> resolves only with at least
  one track, so \<^verbatim>\<open>firstVideoInfo.tracks[0]\<close> is always there.
\<close>

definition combine_output :: "env \<Rightarrow> url list \<Rightarrow> event list \<times> mp4file promise" where
  "combine_output e videoUrls =
     (case videoUrls of
        [] \<Rightarrow> ([], Rejected NoVideosToCombine)
      | u0 # _ \<Rightarrow>
          (case fetch e u0 of
             None \<Rightarrow> ([CreateFile, Fetch u0], Rejected FetchFailed)
           | Some firstVideoBuffer \<Rightarrow>
               (case getInfo e firstVideoBuffer of
                  (ev1, Rejected err) \<Rightarrow> (CreateFile # Fetch u0 # ev1, Rejected err)
                | (ev1, Pending) \<Rightarrow> (CreateFile # Fetch u0 # ev1, Pending)
                | (ev1, Resolved firstVideoInfo) \<Rightarrow>
                    (case tracks firstVideoInfo of
                       [] \<Rightarrow> (CreateFile # Fetch u0 # ev1, Rejected NoTracksFound)
                     | firstTrack # _ \<Rightarrow>
                         (case addTrack (combined_track e firstTrack) createFile of
                            (newTrackId, outputFile) \<Rightarrow>
                              (case combine_loop e newTrackId videoUrls (0, outputFile) of
                                 (ev2, Rejected err) \<Rightarrow>
                                   (CreateFile # Fetch u0 # ev1 @ ev2, Rejected err)
                               | (ev2, Pending) \<Rightarrow>
                                   (CreateFile # Fetch u0 # ev1 @ ev2, Pending)
                               | (ev2, Resolved st) \<Rightarrow>
                                   (CreateFile # Fetch u0 # ev1 @ ev2, Resolved (snd st))))))))"

definition combineVideos :: "env \<Rightarrow> url list \<Rightarrow> event list \<times> url promise" where
  "combineVideos e videoUrls =
     (if length videoUrls = 0 then ([], Rejected NoVideosToCombine)
      else if length videoUrls = 1 then ([], Resolved (videoUrls ! 0))
      else
        (case combine_output e videoUrls of
           (ev, Rejected err) \<Rightarrow> (ev, Rejected err)
         | (ev, Pending) \<Rightarrow> (ev, Pending)
         | (ev, Resolved outputFile) \<Rightarrow>
             (ev @ [GetBuffer outputFile, CreateObjectURL (getBuffer e outputFile)],
              Resolved (createObjectURL e (getBuffer e outputFile)))))"

section \<open>\<open>cutVideo\<close>\<close>

text \<open>
  Step 1 of \<open>cutVideo\<close>: one file per segment, and for every source track a track
  in every segment file, a copy of the source track with \<^verbatim>\<open>nb_samples: 0, duration: 0\<close>.
  \<open>trackIdMap\<close> sends the identifier of a source track to the identifiers of its
  copies, one per segment.
\<close>

definition add_track_to_all :: "track \<Rightarrow> mp4file list \<Rightarrow> nat list \<times> mp4file list" where
  "add_track_to_all tr segmentFiles =
     (let added = map (addTrack (tr\<lparr>t_nb_samples := 0, t_duration := 0\<rparr>)) segmentFiles
      in (map fst added, map snd added))"

fun init_tracks ::
  "track list \<Rightarrow> mp4file list \<times> (nat \<rightharpoonup> nat list) \<Rightarrow> mp4file list \<times> (nat \<rightharpoonup> nat list)" where
  "init_tracks [] st = st"
| "init_tracks (tr # trs) (segmentFiles, trackIdMap) =
     (case add_track_to_all tr segmentFiles of
        (newTrackIds, segmentFiles') \<Rightarrow>
          init_tracks trs (segmentFiles', trackIdMap(t_id tr \<mapsto> newTrackIds)))"

text \<open>
  The number of rounds of \<^verbatim>\<open>for (let i = 0; i < numSegments; i++)\<close>; \<open>None\<close> when the
  loop never ends.
\<close>

fun loop_count :: "jsnum \<Rightarrow> nat option" where
  "loop_count (Finite n) = Some (nat \<lceil>n\<rceil>)"
| "loop_count PosInf = None"
| "loop_count NegInf = Some 0"
| "loop_count NaN = Some 0"

text \<open>Step 3: the body of the loop over the samples of one delivery.\<close>

definition segmentIndex_of :: "number \<Rightarrow> number \<Rightarrow> sample \<Rightarrow> jsnum" where
  "segmentIndex_of segmentDuration tscale s =
     js_floor (js_div (js_div (Finite (dts s)) (Finite tscale)) (Finite segmentDuration))"

definition in_range :: "jsnum \<Rightarrow> jsnum \<Rightarrow> bool" where
  "in_range segmentIndex nSegments =
     (js_le (Finite 0) segmentIndex \<and> js_lt segmentIndex nSegments)"

definition rebase_sample :: "number \<Rightarrow> sample \<Rightarrow> sample" where
  "rebase_sample segmentStartTimeInTimescale s =
     s\<lparr>dts := dts s - segmentStartTimeInTimescale,
       cts := cts s - segmentStartTimeInTimescale\<rparr>"

definition distribute_sample ::
  "number \<Rightarrow> jsnum \<Rightarrow> number \<Rightarrow> nat list \<Rightarrow> sample \<Rightarrow> mp4file list \<Rightarrow> mp4file list" where
  "distribute_sample segmentDuration nSegments tscale newTrackIds s segmentFiles =
     (let segmentIndex = segmentIndex_of segmentDuration tscale s
      in if in_range segmentIndex nSegments then
           (case segmentIndex of
              Finite k \<Rightarrow>
                (let i = nat \<lfloor>k\<rfloor>;
                     segmentStartTimeInTimescale = k * segmentDuration * tscale;
                     newSample = rebase_sample segmentStartTimeInTimescale s
                 in segmentFiles
                      [i := addSample (newTrackIds ! i) (data newSample) newSample
                              (segmentFiles ! i)])
            | _ \<Rightarrow> segmentFiles)
         else segmentFiles)"

definition onSamples ::
  "track list \<Rightarrow> (nat \<rightharpoonup> nat list) \<Rightarrow> number \<Rightarrow> jsnum \<Rightarrow> nat \<times> sample list
     \<Rightarrow> mp4file list \<Rightarrow> mp4file list" where
  "onSamples trks trackIdMap segmentDuration nSegments batch segmentFiles =
     (case find (\<lambda>t. t_id t = fst batch) trks of
        None \<Rightarrow> segmentFiles
      | Some tr \<Rightarrow>
          (case trackIdMap (fst batch) of
             None \<Rightarrow> segmentFiles
           | Some newTrackIds \<Rightarrow>
               fold (distribute_sample segmentDuration nSegments (t_timescale tr) newTrackIds)
                 (snd batch) segmentFiles))"

text \<open>
  The segment files when the source has been read to its end: steps 1 to 3 for \<open>n\<close>
  segment files.
\<close>

definition segment_files ::
  "MP4BoxInfo \<Rightarrow> (nat \<times> sample list) list \<Rightarrow> number \<Rightarrow> jsnum \<Rightarrow> nat \<Rightarrow> mp4file list" where
  "segment_files info batches segmentDuration nSegments n =
     (case init_tracks (tracks info) (replicate n createFile, Map.empty) of
        (segmentFiles, trackIdMap) \<Rightarrow>
          fold (onSamples (tracks info) trackIdMap segmentDuration nSegments) batches
            segmentFiles)"

text \<open>Step 4: the clip names, and the loop of \<^verbatim>\<open>onFlush\<close> over the segment files.\<close>

fun string_of_nat :: "nat \<Rightarrow> string" where
  "string_of_nat n =
     (if n < 10 then [''0123456789'' ! n]
      else string_of_nat (n div 10) @ [''0123456789'' ! (n mod 10)])"

definition padStart2 :: "string \<Rightarrow> string" where
  "padStart2 s = replicate (2 - length s) CHR ''0'' @ s"

definition clip_name :: "nat \<Rightarrow> string" where
  "clip_name i = ''clip_'' @ padStart2 (string_of_nat (i + 1)) @ ''.mp4''"

record clip =
  url :: url
  name :: string

fun flush_loop :: "env \<Rightarrow> nat \<Rightarrow> mp4file list \<Rightarrow> event list \<times> clip list" where
  "flush_loop e i [] = ([], [])"
| "flush_loop e i (f # fs) =
     (case flush_loop e (Suc i) fs of
        (ev, clipUrls) \<Rightarrow>
          (let segmentBuffer = getBuffer e f
           in if 0 < length segmentBuffer then
                (GetBuffer f # CreateObjectURL segmentBuffer # ev,
                 \<lparr>url = createObjectURL e segmentBuffer, name = clip_name i\<rparr> # clipUrls)
              else (GetBuffer f # ev, clipUrls)))"

definition onFlush :: "env \<Rightarrow> jsnum \<Rightarrow> mp4file list \<Rightarrow> event list \<times> clip list promise" where
  "onFlush e nSegments segmentFiles =
     (case flush_loop e 0 segmentFiles of
        (ev, clipUrls) \<Rightarrow>
          (ev, if length clipUrls = 0 \<and> js_lt (Finite 0) nSegments
               then Rejected FailedToExtractAnyClips
               else Resolved clipUrls))"

text \<open>
  \<open>cutVideo\<close>. The second parse of the same buffer, by \<^verbatim>\<open>mainFile\<close>, reports what
  the first one reported to \<open>getInfo\<close>. When \<open>numSegments\<close> is infinite the loop that
  creates the segment files never ends and the promise is never settled.
\<close>

definition totalDurationInSeconds :: "MP4BoxInfo \<Rightarrow> jsnum" where
  "totalDurationInSeconds originalInfo =
     js_div (Finite (duration originalInfo)) (Finite (timescale originalInfo))"

definition numSegments :: "MP4BoxInfo \<Rightarrow> number \<Rightarrow> jsnum" where
  "numSegments originalInfo segmentDuration =
     js_ceil (js_div (totalDurationInSeconds originalInfo) (Finite segmentDuration))"

definition cutVideo :: "env \<Rightarrow> buffer \<Rightarrow> number \<Rightarrow> event list \<times> clip list promise" where
  "cutVideo e videoBuffer segmentDuration =
     (case getInfo e videoBuffer of
        (ev0, Rejected err) \<Rightarrow> (ev0, Rejected err)
      | (ev0, Pending) \<Rightarrow> (ev0, Pending)
      | (ev0, Resolved originalInfo) \<Rightarrow>
          if js_le (totalDurationInSeconds originalInfo) (Finite 0)
          then (ev0, Rejected InvalidVideoDuration)
          else
            (case loop_count (numSegments originalInfo segmentDuration) of
               None \<Rightarrow> (ev0, Pending)
             | Some n \<Rightarrow>
                 (case parse e videoBuffer of
                    ParseError \<Rightarrow>
                      (ev0 @ replicate n CreateFile @ [CreateFile, AppendBuffer videoBuffer],
                       Rejected ParseFailed)
                  | Ready info batches \<Rightarrow>
                      (case onFlush e (numSegments originalInfo segmentDuration)
                              (segment_files originalInfo batches segmentDuration
                                 (numSegments originalInfo segmentDuration) n) of
                         (ev1, r) \<Rightarrow>
                           (ev0 @ replicate n CreateFile
                              @ [CreateFile, AppendBuffer videoBuffer] @ ev1, r)))))"

section \<open>Notions used to state the properties\<close>

text \<open>
  The files a run writes out with \<^verbatim>\<open>getBuffer()\<close>, in the order of the calls.
\<close>

fun finalized :: "event list \<Rightarrow> mp4file list" where
  "finalized [] = []"
| "finalized (GetBuffer f # evs) = f # finalized evs"
| "finalized (_ # evs) = finalized evs"

text \<open>
  The indices of the segment files whose written buffer is not empty, and the entry of
  the returned list that \<^verbatim>\<open>onFlush\<close> makes for segment \<open>i\<close>.
\<close>

definition nonempty_segments :: "env \<Rightarrow> mp4file list \<Rightarrow> nat list" where
  "nonempty_segments e segmentFiles =
     filter (\<lambda>i. 0 < length (getBuffer e (segmentFiles ! i))) [0..<length segmentFiles]"

definition segment_clip :: "env \<Rightarrow> mp4file list \<Rightarrow> nat \<Rightarrow> clip" where
  "segment_clip e segmentFiles i =
     \<lparr>url = createObjectURL e (getBuffer e (segmentFiles ! i)), name = clip_name i\<rparr>"


text \<open>
  Every sample held by the files has a DTS that is at least 0 and below the segment
  duration in the timescale of one of the tracks.
\<close>

definition dts_bounded :: "track list \<Rightarrow> number \<Rightarrow> mp4file list \<Rightarrow> bool" where
  "dts_bounded trks segmentDuration files =
     (\<forall>f \<in> set files. \<forall>p \<in> set (f_samples f).
        0 \<le> dts (snd p) \<and> (\<exists>tr \<in> set trks. dts (snd p) < segmentDuration * t_timescale tr))"

text \<open>
  A source of \<open>combineVideos\<close> is parseable when its URL can be fetched and MP4Box
  reports a container with at least one track.
\<close>

definition parseable :: "env \<Rightarrow> url \<Rightarrow> bool" where
  "parseable e u =
     (case fetch e u of
        None \<Rightarrow> False
      | Some b \<Rightarrow> (case parse e b of ParseError \<Rightarrow> False | Ready info batches \<Rightarrow> tracks info \<noteq> []))"

text \<open>
  What \<open>combineVideos\<close> reads from one source: the samples \<open>getSamples\<close> collects
  (those of its first track) and the \<^verbatim>\<open>info.duration\<close> that \<open>getInfo\<close> reports.
  \<open>chained\<close> is the sequence of samples that a chain of sources should leave in the
  destination track: source after source, each moved by the durations before it.
\<close>

definition first_track_samples :: "env \<Rightarrow> url \<Rightarrow> sample list" where
  "first_track_samples e u =
     (case fetch e u of
        None \<Rightarrow> []
      | Some b \<Rightarrow> (case snd (getSamples e b) of Resolved samples \<Rightarrow> samples | _ \<Rightarrow> []))"

definition reported_duration :: "env \<Rightarrow> url \<Rightarrow> number" where
  "reported_duration e u =
     (case fetch e u of
        None \<Rightarrow> 0
      | Some b \<Rightarrow> (case snd (getInfo e b) of Resolved info \<Rightarrow> duration info | _ \<Rightarrow> 0))"

fun chained :: "env \<Rightarrow> number \<Rightarrow> url list \<Rightarrow> sample list" where
  "chained e acc [] = []"
| "chained e acc (u # us) =
     map (offset_sample acc) (first_track_samples e u)
       @ chained e (acc + reported_duration e u) us"

section \<open>Example containers\<close>

text \<open>
  Concrete sources and surroundings on which the properties below are evaluated.
  Buffer \<open>[1]\<close> is a 20 second single-track container (timescale 1000) with a sample
  at 0 s and one at 8 s whose composition time lies before its decoding time;
  \<open>[2]\<close> is the same container with one more sample, stamped 25 s, behind its end;
  \<open>[3]\<close> has the track but no sample; \<open>[4]\<close> is a 4 second container with a video
  and an audio track; \<open>[5]\<close> has one track and one sample. The writer of \<open>ex_env\<close>
  puts out the payload bytes of the samples, so that a file without samples is written
  as an empty buffer. On these inputs double-precision arithmetic gives the same
  segment counts, segment indices and timestamps as the exact arithmetic of the model.
\<close>

definition ex_sample :: "number \<Rightarrow> number \<Rightarrow> sample" where
  "ex_sample d c =
     \<lparr>dts = d, cts = c, s_duration = 1000, s_size = 1, is_sync = True, data = [7]\<rparr>"

definition ex_video :: track where
  "ex_video = \<lparr>t_id = 1, t_timescale = 1000, t_nb_samples = 2, t_duration = 20000,
                t_created = 10, t_modified = 11, t_codec = [1, 2, 3]\<rparr>"

definition ex_audio :: track where
  "ex_audio = \<lparr>t_id = 2, t_timescale = 1000, t_nb_samples = 1, t_duration = 4000,
                t_created = 10, t_modified = 11, t_codec = [4, 5]\<rparr>"

definition ex_info :: MP4BoxInfo where
  "ex_info = \<lparr>duration = 20000, timescale = 1000, tracks = [ex_video]\<rparr>"

definition ex_av_info :: MP4BoxInfo where
  "ex_av_info = \<lparr>duration = 4000, timescale = 1000, tracks = [ex_video, ex_audio]\<rparr>"

definition ex_batches :: "(nat \<times> sample list) list" where
  "ex_batches = [(1, [ex_sample 0 0, ex_sample 8000 7000])]"

definition ex_batches_late :: "(nat \<times> sample list) list" where
  "ex_batches_late = [(1, [ex_sample 0 0, ex_sample 25000 25000, ex_sample 8000 7000])]"

definition ex_av_batches :: "(nat \<times> sample list) list" where
  "ex_av_batches = [(1, [ex_sample 0 0, ex_sample 2000 2000]), (2, [ex_sample 500 500])]"

definition ex_parse :: "buffer \<Rightarrow> source" where
  "ex_parse b =
     (if b = [1] then Ready ex_info ex_batches
      else if b = [2] then Ready ex_info ex_batches_late
      else if b = [3] then Ready ex_info []
      else if b = [4] then Ready ex_av_info ex_av_batches
      else if b = [5] then Ready ex_info [(1, [ex_sample 0 1000])]
      else ParseError)"

definition payload_bytes :: "mp4file \<Rightarrow> buffer" where
  "payload_bytes f = concat (map (\<lambda>p. data (snd p)) (f_samples f))"

definition ex_fetch :: "url \<Rightarrow> buffer option" where
  "ex_fetch u = (if u = ''a'' then Some [4] else if u = ''b'' then Some [5] else None)"

definition ex_createObjectURL :: "buffer \<Rightarrow> url" where
  "ex_createObjectURL b = ''blob:'' @ string_of_nat (length b)"

definition ex_env :: env where
  "ex_env =
     \<lparr>parse = ex_parse, getBuffer = payload_bytes, fetch = ex_fetch,
      createObjectURL = ex_createObjectURL, now_created = 100, now_modified = 101\<rparr>"


section \<open>Lemmas about \<open>cutVideo\<close>\<close>

lemma length_distribute_sample [simp]:
  "length (distribute_sample sd ns ts ids s files) = length files"
  by (simp add: distribute_sample_def Let_def split: jsnum.splits)

lemma length_fold_distribute [simp]:
  "length (fold (distribute_sample sd ns ts ids) ss files) = length files"
  by (induction ss arbitrary: files) simp_all

lemma length_onSamples [simp]:
  "length (onSamples trks m sd ns batch files) = length files"
  by (simp add: onSamples_def split: option.splits)

lemma length_fold_onSamples [simp]:
  "length (fold (onSamples trks m sd ns) batches files) = length files"
  by (induction batches arbitrary: files) simp_all

lemma length_add_track_to_all:
  "add_track_to_all tr files = (ids, files') \<Longrightarrow> length files' = length files \<and> length ids = length files"
  by (auto simp: add_track_to_all_def Let_def)

lemma length_init_tracks:
  "init_tracks trks (files, m) = (files', m') \<Longrightarrow> length files' = length files"
proof (induction trks arbitrary: files m)
  case Nil
  then show ?case by simp
next
  case (Cons tr trks)
  then show ?case
    by (auto split: prod.splits dest: length_add_track_to_all)
qed

lemma length_segment_files [simp]:
  "length (segment_files info batches sd ns n) = n"
  by (auto simp: segment_files_def split: prod.splits dest: length_init_tracks)

lemma getInfo_Ready:
  "parse e b = Ready info batches \<Longrightarrow> tracks info \<noteq> [] \<Longrightarrow>
   getInfo e b = ([CreateFile, AppendBuffer b], Resolved info)"
  by (simp add: getInfo_def)

lemma loop_count_negative:
  assumes "js_lt (Finite 0) tot" "sd < 0"
  shows "loop_count (js_ceil (js_div tot (Finite sd))) = Some 0 \<and> \<not> js_lt (Finite 0) (js_ceil (js_div tot (Finite sd)))"
proof (cases tot)
  case (Finite t)
  with assms have t: "0 < t" by simp
  with assms have "t / sd < 0" by (simp add: divide_pos_neg)
  then have "\<lceil>t / sd\<rceil> \<le> 0" by (simp add: ceiling_le_zero)
  with Finite assms show ?thesis by simp
next
  case PosInf
  with assms show ?thesis by simp
next
  case NegInf
  with assms show ?thesis by simp
next
  case NaN
  with assms show ?thesis by simp
qed

lemma segmentIndex_of_pos:
  assumes "0 < tscale" "0 < sd"
  shows "segmentIndex_of sd tscale s = Finite (of_int \<lfloor>dts s / tscale / sd\<rfloor>)"
  using assms by (simp add: segmentIndex_of_def)

lemma rebase_bounds:
  fixes d ts sd :: rat
  assumes "0 < ts" "0 < sd"
  shows "0 \<le> d - of_int \<lfloor>d / ts / sd\<rfloor> * sd * ts"
    and "d - of_int \<lfloor>d / ts / sd\<rfloor> * sd * ts < sd * ts"
proof -
  let ?k = "of_int \<lfloor>d / ts / sd\<rfloor> :: rat"
  have pos: "0 < sd * ts" using assms by simp
  have q: "d / ts / sd = d / (sd * ts)" by (simp add: mult.commute)
  have "?k \<le> d / (sd * ts)" unfolding q [symmetric] by (rule of_int_floor_le)
  then have "?k * (sd * ts) \<le> d" using pos by (simp add: pos_le_divide_eq)
  then show "0 \<le> d - ?k * sd * ts" by (simp add: mult.assoc)
  have "d / (sd * ts) < ?k + 1" unfolding q [symmetric] by linarith
  then have "d < (?k + 1) * (sd * ts)" using pos by (simp add: pos_divide_less_eq)
  then show "d - ?k * sd * ts < sd * ts" by (simp add: algebra_simps)
qed

lemma distribute_sample_dropped:
  "\<not> in_range (segmentIndex_of sd ts s) ns \<Longrightarrow> distribute_sample sd ns ts ids s files = files"
  by (simp add: distribute_sample_def)

lemma flush_loop_clips:
  "snd (flush_loop e k files) =
     map (\<lambda>i. \<lparr>url = createObjectURL e (getBuffer e (files ! i)), name = clip_name (k + i)\<rparr>)
       (filter (\<lambda>i. 0 < length (getBuffer e (files ! i))) [0..<length files])"
proof (induction files arbitrary: k)
  case Nil
  then show ?case by simp
next
  case (Cons f fs)
  obtain ev cs where fl: "flush_loop e (Suc k) fs = (ev, cs)"
    by (cases "flush_loop e (Suc k) fs")
  have cs: "cs = map (\<lambda>i. \<lparr>url = createObjectURL e (getBuffer e (fs ! i)),
                              name = clip_name (Suc k + i)\<rparr>)
                 (filter (\<lambda>i. 0 < length (getBuffer e (fs ! i))) [0..<length fs])"
    using Cons.IH [of "Suc k"] fl by simp
  have upt: "[0..<length (f # fs)] = 0 # map Suc [0..<length fs]"
    by (simp add: upt_conv_Cons map_Suc_upt del: upt_Suc)
  show ?case
    unfolding upt by (simp add: fl cs Let_def filter_map comp_def)
qed

lemma finalized_append [simp]: "finalized (xs @ ys) = finalized xs @ finalized ys"
  by (induction xs rule: finalized.induct) simp_all

lemma finalized_replicate_CreateFile [simp]: "finalized (replicate n CreateFile) = []"
  by (induction n) simp_all

lemma flush_loop_finalized: "finalized (fst (flush_loop e k files)) = files"
proof (induction files arbitrary: k)
  case Nil
  then show ?case by simp
next
  case (Cons f fs)
  obtain ev cs where fl: "flush_loop e (Suc k) fs = (ev, cs)"
    by (cases "flush_loop e (Suc k) fs")
  have "finalized ev = fs" using Cons.IH [of "Suc k"] fl by simp
  then show ?case by (simp add: fl Let_def)
qed

lemma onFlush_result:
  "snd (onFlush e ns files) =
     (if nonempty_segments e files = [] \<and> js_lt (Finite 0) ns
      then Rejected FailedToExtractAnyClips
      else Resolved (map (segment_clip e files) (nonempty_segments e files)))"
proof -
  obtain ev cs where fl: "flush_loop e 0 files = (ev, cs)"
    by (cases "flush_loop e 0 files")
  have cs: "cs = map (segment_clip e files) (nonempty_segments e files)"
    using flush_loop_clips [of e 0 files] fl
    by (simp add: nonempty_segments_def segment_clip_def)
  show ?thesis by (simp add: onFlush_def fl cs)
qed

lemma onFlush_finalized: "finalized (fst (onFlush e ns files)) = files"
proof -
  obtain ev cs where fl: "flush_loop e 0 files = (ev, cs)"
    by (cases "flush_loop e 0 files")
  have "finalized ev = files" using flush_loop_finalized [of e 0 files] fl by simp
  then show ?thesis by (simp add: onFlush_def fl)
qed


lemma cutVideo_flush:
  assumes "parse e b = Ready info batches" and "tracks info \<noteq> []"
    and "\<not> js_le (totalDurationInSeconds info) (Finite 0)"
    and "loop_count (numSegments info sd) = Some n"
  shows "cutVideo e b sd =
           ([CreateFile, AppendBuffer b] @ replicate n CreateFile @ [CreateFile, AppendBuffer b]
              @ fst (onFlush e (numSegments info sd)
                      (segment_files info batches sd (numSegments info sd) n)),
            snd (onFlush e (numSegments info sd)
                      (segment_files info batches sd (numSegments info sd) n)))"
  by (simp add: cutVideo_def getInfo_Ready [OF assms(1,2)] assms split: prod.splits)

















lemma init_tracks_no_samples:
  assumes "init_tracks trks (files, m) = (files', m')" "\<forall>f \<in> set files. f_samples f = []"
  shows "\<forall>f \<in> set files'. f_samples f = []"
  using assms
proof (induction trks arbitrary: files m)
  case Nil
  then show ?case by simp
next
  case (Cons tr trks)
  obtain ids fs1 where a: "add_track_to_all tr files = (ids, fs1)"
    by (cases "add_track_to_all tr files")
  have "\<forall>f \<in> set fs1. f_samples f = []"
    using a Cons.prems(2) by (auto simp: add_track_to_all_def Let_def addTrack_def)
  moreover have "init_tracks trks (fs1, m(t_id tr \<mapsto> ids)) = (files', m')"
    using Cons.prems(1) a by simp
  ultimately show ?case using Cons.IH by blast
qed


text \<open>
  In \<open>cutVideo\<close> the reads \<^verbatim>\<open>segmentFiles[segmentIndex]\<close> and
  \<^verbatim>\<open>newTrackIds[segmentIndex]\<close> are never out of range: a kept index is below the
  number of segment files, which is also the length of every entry of \<open>trackIdMap\<close>.
\<close>

lemma kept_index_in_range:
  assumes "in_range (Finite k) ns" and "loop_count ns = Some n"
  shows "nat \<lfloor>k\<rfloor> < n"
proof (cases ns)
  case (Finite m)
  with assms have k0: "0 \<le> k" and km: "k < m" and n: "n = nat \<lceil>m\<rceil>"
    by (auto simp: in_range_def)
  have "of_int \<lfloor>k\<rfloor> \<le> k" by simp
  also have "k < m" by (rule km)
  also have "m \<le> of_int \<lceil>m\<rceil>" by simp
  finally have "\<lfloor>k\<rfloor> < \<lceil>m\<rceil>" by simp
  moreover have "0 \<le> \<lfloor>k\<rfloor>" using k0 by simp
  ultimately have "\<lfloor>k\<rfloor> < \<lceil>m\<rceil>" and "0 < \<lceil>m\<rceil>" by linarith+
  then show ?thesis unfolding n by (simp only: zless_nat_conj simp_thms)
next
  case PosInf
  with assms show ?thesis by simp
next
  case NegInf
  with assms show ?thesis by (simp add: in_range_def)
next
  case NaN
  with assms show ?thesis by (simp add: in_range_def)
qed

lemma init_tracks_map_lengths:
  assumes "init_tracks trks (files, m) = (files', m')"
    and "\<forall>ids \<in> ran m. length ids = length files"
  shows "\<forall>ids \<in> ran m'. length ids = length files"
  using assms
proof (induction trks arbitrary: files m)
  case Nil
  then show ?case by simp
next
  case (Cons tr trks)
  obtain ids fs1 where a: "add_track_to_all tr files = (ids, fs1)"
    by (cases "add_track_to_all tr files")
  note l = length_add_track_to_all [OF a]
  have r: "init_tracks trks (fs1, m(t_id tr \<mapsto> ids)) = (files', m')"
    using Cons.prems(1) a by simp
  have "\<forall>x \<in> ran (m(t_id tr \<mapsto> ids)). length x = length fs1"
  proof
    fix x assume "x \<in> ran (m(t_id tr \<mapsto> ids))"
    then have "x = ids \<or> x \<in> ran m" by (auto simp: ran_def split: if_splits)
    then show "length x = length fs1" using l Cons.prems(2) by auto
  qed
  from Cons.IH [OF r this] l show ?case by simp
qed

lemma data_rebase_sample [simp]: "data (rebase_sample segmentStart s) = data s"
  by (simp add: rebase_sample_def)

text \<open>
  The bounds on the rebased DTS hold for every sample of every segment file of a run,
  when all tracks have a positive timescale and the segment duration is positive.
\<close>

lemma find_Some_mem: "find P xs = Some x \<Longrightarrow> x \<in> set xs"
  by (induction xs) (auto split: if_splits)

lemma dts_bounded_distribute:
  assumes "dts_bounded trks sd files" and "tr \<in> set trks" and "0 < t_timescale tr" and "0 < sd"
  shows "dts_bounded trks sd (distribute_sample sd ns (t_timescale tr) ids s files)"
proof (cases "in_range (segmentIndex_of sd (t_timescale tr) s) ns")
  case False
  then show ?thesis using assms(1) by (simp add: distribute_sample_dropped)
next
  case True
  let ?k = "\<lfloor>dts s / t_timescale tr / sd\<rfloor>"
  let ?s' = "rebase_sample (of_int ?k * sd * t_timescale tr) s"
  have idx: "segmentIndex_of sd (t_timescale tr) s = Finite (of_int ?k)"
    by (rule segmentIndex_of_pos [OF assms(3,4)])
  have d: "distribute_sample sd ns (t_timescale tr) ids s files
             = files[nat ?k := addSample (ids ! nat ?k) (data s) ?s' (files ! nat ?k)]"
    using True by (simp add: distribute_sample_def idx Let_def)
  have b: "0 \<le> dts ?s'" "dts ?s' < sd * t_timescale tr"
    using rebase_bounds [OF assms(3,4), of "dts s"] by (simp_all add: rebase_sample_def)
  show ?thesis
  proof (cases "nat ?k < length files")
    case False
    then have le: "length files \<le> nat ?k" by simp
    show ?thesis unfolding d list_update_beyond [OF le] by (rule assms(1))
  next
    case True
    then have mem: "files ! nat ?k \<in> set files" by simp
    have new: "\<forall>p \<in> set (f_samples (addSample (ids ! nat ?k) (data s) ?s' (files ! nat ?k))).
        0 \<le> dts (snd p) \<and> (\<exists>tr \<in> set trks. dts (snd p) < sd * t_timescale tr)"
      using assms(1,2) mem b by (auto simp: addSample_def dts_bounded_def)
    have sub: "set (files[nat ?k := addSample (ids ! nat ?k) (data s) ?s' (files ! nat ?k)])
            \<subseteq> insert (addSample (ids ! nat ?k) (data s) ?s' (files ! nat ?k)) (set files)"
      by (rule set_update_subset_insert)
    show ?thesis
      unfolding d dts_bounded_def
    proof (intro ballI)
      fix f p
      assume f: "f \<in> set (files[nat ?k := addSample (ids ! nat ?k) (data s) ?s' (files ! nat ?k)])"
        and p: "p \<in> set (f_samples f)"
      from f sub have "f = addSample (ids ! nat ?k) (data s) ?s' (files ! nat ?k) \<or> f \<in> set files"
        by blast
      then show "0 \<le> dts (snd p) \<and> (\<exists>tr \<in> set trks. dts (snd p) < sd * t_timescale tr)"
        using new p assms(1) unfolding dts_bounded_def by blast
    qed
  qed
qed

lemma dts_bounded_fold_distribute:
  assumes "dts_bounded trks sd files" and "tr \<in> set trks" and "0 < t_timescale tr" and "0 < sd"
  shows "dts_bounded trks sd (fold (distribute_sample sd ns (t_timescale tr) ids) ss files)"
  using assms(1)
proof (induction ss arbitrary: files)
  case Nil
  then show ?case by simp
next
  case (Cons s ss)
  then show ?case by (simp add: dts_bounded_distribute [OF _ assms(2,3,4)])
qed

lemma dts_bounded_onSamples:
  assumes "dts_bounded trks sd files" and "\<forall>tr \<in> set trks. 0 < t_timescale tr" and "0 < sd"
  shows "dts_bounded trks sd (onSamples trks m sd ns batch files)"
proof (cases "find (\<lambda>t. t_id t = fst batch) trks")
  case None
  then show ?thesis using assms(1) by (simp add: onSamples_def)
next
  case (Some tr)
  then have "tr \<in> set trks" by (rule find_Some_mem)
  with assms(2) have "0 < t_timescale tr" by blast
  with Some \<open>tr \<in> set trks\<close> assms(1,3) show ?thesis
    by (simp add: onSamples_def dts_bounded_fold_distribute split: option.splits)
qed

lemma dts_bounded_fold_onSamples:
  assumes "dts_bounded trks sd files" and "\<forall>tr \<in> set trks. 0 < t_timescale tr" and "0 < sd"
  shows "dts_bounded trks sd (fold (onSamples trks m sd ns) batches files)"
  using assms(1)
proof (induction batches arbitrary: files)
  case Nil
  then show ?case by simp
next
  case (Cons b bs)
  then show ?case by (simp add: dts_bounded_onSamples [OF _ assms(2,3)])
qed

lemma dts_bounded_segment_files:
  assumes "\<forall>tr \<in> set (tracks info). 0 < t_timescale tr" and "0 < sd"
  shows "dts_bounded (tracks info) sd (segment_files info batches sd ns n)"
proof -
  obtain fs m where i: "init_tracks (tracks info) (replicate n createFile, Map.empty) = (fs, m)"
    by (cases "init_tracks (tracks info) (replicate n createFile, Map.empty)")
  have "\<forall>f \<in> set fs. f_samples f = []"
    using init_tracks_no_samples [OF i] by (simp add: createFile_def)
  then have "dts_bounded (tracks info) sd fs" by (simp add: dts_bounded_def)
  then show ?thesis
    by (simp add: segment_files_def i dts_bounded_fold_onSamples [OF _ assms])
qed

text \<open>
  How the promise of \<open>cutVideo\<close> is settled, in every case: each failure is a
  rejection with its own error, and the promise stays pending only when the number of
  segments is infinite.
\<close>

lemma cutVideo_outcome:
  "snd (cutVideo e b segmentDuration) =
     (case parse e b of
        ParseError \<Rightarrow> Rejected ParseFailed
      | Ready info batches \<Rightarrow>
          if tracks info = [] then Rejected NoTracksFound
          else if js_le (totalDurationInSeconds info) (Finite 0) then Rejected InvalidVideoDuration
          else
            (case loop_count (numSegments info segmentDuration) of
               None \<Rightarrow> Pending
             | Some n \<Rightarrow>
                 (let files = segment_files info batches segmentDuration
                                (numSegments info segmentDuration) n
                  in if nonempty_segments e files = []
                        \<and> js_lt (Finite 0) (numSegments info segmentDuration)
                     then Rejected FailedToExtractAnyClips
                     else Resolved (map (segment_clip e files) (nonempty_segments e files)))))"
proof (cases "parse e b")
  case ParseError
  then show ?thesis by (simp add: cutVideo_def getInfo_def)
next
  case (Ready info batches)
  show ?thesis
  proof (cases "tracks info = []")
    case True
    with Ready show ?thesis by (simp add: cutVideo_def getInfo_def)
  next
    case False
    note g = getInfo_Ready [OF Ready False]
    show ?thesis
    proof (cases "js_le (totalDurationInSeconds info) (Finite 0)")
      case True
      with Ready False show ?thesis by (simp add: cutVideo_def g)
    next
      case nle: False
      show ?thesis
      proof (cases "loop_count (numSegments info segmentDuration)")
        case None
        with Ready False nle show ?thesis by (simp add: cutVideo_def g)
      next
        case (Some n)
        show ?thesis
          using Ready False nle Some
          by (simp add: cutVideo_flush [OF Ready False nle Some] onFlush_result Let_def)
      qed
    qed
  qed
qed

section \<open>Lemmas about \<open>combineVideos\<close>\<close>

lemma append_samples_tracks [simp]:
  "f_tracks (append_samples tid acc ss out) = f_tracks out"
  by (induction ss arbitrary: out) (simp_all add: append_samples_def addSample_def Let_def)

lemma append_samples_samples:
  "f_samples (append_samples tid acc ss out)
     = f_samples out @ map (\<lambda>s. (tid, offset_sample acc s)) ss"
  by (induction ss arbitrary: out) (simp_all add: append_samples_def addSample_def Let_def)

lemma combine_step_Resolved:
  assumes "combine_step e tid u (acc, out) = (ev, Resolved (acc', out'))"
  shows "acc' = acc + reported_duration e u"
    and "f_tracks out' = f_tracks out"
    and "f_samples out' = f_samples out
           @ map (Pair tid) (map (offset_sample acc) (first_track_samples e u))"
  using assms
  by (auto simp: combine_step_def first_track_samples_def reported_duration_def
        append_samples_samples comp_def
      split: option.splits prod.splits promise.splits)

lemma combine_loop_Resolved:
  assumes "combine_loop e tid us (acc, out) = (ev, Resolved (acc', out'))"
  shows "f_tracks out' = f_tracks out
       \<and> f_samples out' = f_samples out @ map (Pair tid) (chained e acc us)"
  using assms
proof (induction us arbitrary: acc out ev)
  case Nil
  then show ?case by simp
next
  case (Cons u us)
  from Cons.prems obtain ev1 acc1 out1 ev2 where
    step: "combine_step e tid u (acc, out) = (ev1, Resolved (acc1, out1))"
    and rest: "combine_loop e tid us (acc1, out1) = (ev2, Resolved (acc', out'))"
    by (auto split: prod.splits promise.splits)
  note s = combine_step_Resolved [OF step]
  from Cons.IH [OF rest] s show ?case by simp
qed

lemma chained_concat:
  "chained e acc us =
     concat (map (\<lambda>k. map (offset_sample (acc + (\<Sum>j<k. reported_duration e (us ! j))))
                        (first_track_samples e (us ! k))) [0..<length us])"
proof (induction us arbitrary: acc)
  case Nil
  then show ?case by simp
next
  case (Cons u us)
  have upt: "[0..<length (u # us)] = 0 # map Suc [0..<length us]"
    by (simp add: upt_conv_Cons map_Suc_upt del: upt_Suc)
  show ?case
    unfolding upt
    by (simp add: Cons.IH comp_def sum.lessThan_Suc_shift add.assoc del: sum.lessThan_Suc)
qed

lemma offset_sample_0 [simp]: "offset_sample 0 s = s"
  by (simp add: offset_sample_def)

lemma map_offset_sample_0 [simp]: "map (offset_sample 0) ss = ss"
  by (induction ss) simp_all

lemma combine_output_Resolved:
  assumes "combine_output e (u0 # us) = (ev, Resolved out)"
  shows "\<exists>b0 info0 batches0 firstTrack rest.
           fetch e u0 = Some b0 \<and> parse e b0 = Ready info0 batches0
         \<and> tracks info0 = firstTrack # rest
         \<and> f_tracks out = [combined_track e firstTrack]
         \<and> f_samples out = map (Pair 1) (chained e 0 (u0 # us))"
proof -
  from assms obtain b0 where f: "fetch e u0 = Some b0"
    by (auto simp: combine_output_def split: option.splits)
  from assms f obtain info0 batches0 where p: "parse e b0 = Ready info0 batches0"
    by (cases "parse e b0") (auto simp: combine_output_def getInfo_def)
  from assms f p obtain firstTrack rest where t: "tracks info0 = firstTrack # rest"
    by (cases "tracks info0") (auto simp: combine_output_def getInfo_def)
  have a: "addTrack (combined_track e firstTrack) createFile
             = (1, \<lparr>f_tracks = [combined_track e firstTrack], f_samples = []\<rparr>)"
    by (simp add: addTrack_def createFile_def combined_track_def)
  from assms f p t a obtain ev2 st where
    l: "combine_loop e 1 (u0 # us) (0, \<lparr>f_tracks = [combined_track e firstTrack], f_samples = []\<rparr>)
          = (ev2, Resolved st)" and o: "out = snd st"
    by (auto simp: combine_output_def getInfo_def split: prod.splits promise.splits)
  from l have "combine_loop e 1 (u0 # us) (0, \<lparr>f_tracks = [combined_track e firstTrack], f_samples = []\<rparr>)
          = (ev2, Resolved (fst st, out))" using o by simp
  from combine_loop_Resolved [OF this] f p t show ?thesis by simp
qed

lemma finalized_combine_step:
  "finalized (fst (combine_step e tid u st)) = []"
  by (simp add: combine_step_def getInfo_def getSamples_def split: option.splits promise.splits source.splits list.splits)

lemma finalized_combine_loop: "finalized (fst (combine_loop e tid us st)) = []"
proof (induction us arbitrary: st)
  case Nil
  then show ?case by simp
next
  case (Cons u us)
  obtain ev r where s: "combine_step e tid u st = (ev, r)" by (cases "combine_step e tid u st")
  have ev: "finalized ev = []" using finalized_combine_step [of e tid u st] s by simp
  show ?case
  proof (cases r)
    case (Resolved st')
    obtain ev' r' where l: "combine_loop e tid us st' = (ev', r')"
      by (cases "combine_loop e tid us st'")
    have "finalized ev' = []" using Cons.IH [of st'] l by simp
    then show ?thesis using s Resolved l ev by simp
  next
    case (Rejected err)
    then show ?thesis using s ev by simp
  next
    case Pending
    then show ?thesis using s ev by simp
  qed
qed

lemma finalized_combine_output: "finalized (fst (combine_output e us)) = []"
proof (cases us)
  case Nil
  then show ?thesis by (simp add: combine_output_def)
next
  case (Cons u0 rest)
  have "\<And>tid st. finalized (fst (combine_loop e tid (u0 # rest) st)) = []"
    by (rule finalized_combine_loop)
  then have l: "\<And>tid st ev r. combine_loop e tid (u0 # rest) st = (ev, r) \<Longrightarrow> finalized ev = []"
    by (metis fst_conv)
  show ?thesis
    unfolding Cons
    by (auto simp: combine_output_def getInfo_def simp del: combine_loop.simps dest: l
        split: option.splits promise.splits source.splits list.splits prod.splits)
qed

lemma combineVideos_Resolved:
  assumes "combineVideos e (u0 # u1 # us) = (ev, Resolved r)"
  shows "\<exists>ev' out. combine_output e (u0 # u1 # us) = (ev', Resolved out)
           \<and> finalized ev = [out] \<and> r = createObjectURL e (getBuffer e out)"
proof -
  from assms obtain ev' out where c: "combine_output e (u0 # u1 # us) = (ev', Resolved out)"
    and ev: "ev = ev' @ [GetBuffer out, CreateObjectURL (getBuffer e out)]"
    and r: "r = createObjectURL e (getBuffer e out)"
    by (auto simp: combineVideos_def split: prod.splits promise.splits)
  have "finalized ev' = []" using finalized_combine_output [of e "u0 # u1 # us"] c by simp
  with c ev r show ?thesis by simp
qed

lemma combine_step_parseable:
  assumes "parseable e u"
  shows "\<exists>ev st'. combine_step e tid u st = (ev, Resolved st')"
  using assms
  by (auto simp: parseable_def combine_step_def getInfo_def getSamples_def
      split: option.splits source.splits list.splits)

lemma combine_loop_parseable:
  assumes "list_all (parseable e) us"
  shows "\<exists>ev st'. combine_loop e tid us st = (ev, Resolved st')"
  using assms
proof (induction us arbitrary: st)
  case Nil
  then show ?case by simp
next
  case (Cons u us)
  from Cons.prems have "parseable e u" and rest: "list_all (parseable e) us" by simp_all
  from combine_step_parseable [OF this(1)] obtain ev1 st1 where
    s: "combine_step e tid u st = (ev1, Resolved st1)" by blast
  from Cons.IH [OF rest] obtain ev2 st2 where
    l: "combine_loop e tid us st1 = (ev2, Resolved st2)" by blast
  show ?case by (simp add: s l)
qed

lemma combine_output_parseable:
  assumes "list_all (parseable e) (u0 # us)"
  shows "\<exists>ev out. combine_output e (u0 # us) = (ev, Resolved out)"
proof -
  from assms have p: "parseable e u0" by simp
  then obtain b0 info0 batches0 firstTrack rest where
    f: "fetch e u0 = Some b0" and r: "parse e b0 = Ready info0 batches0"
    and t: "tracks info0 = firstTrack # rest"
    by (auto simp: parseable_def neq_Nil_conv split: option.splits source.splits)
  obtain tid out0 where a: "addTrack (combined_track e firstTrack) createFile = (tid, out0)"
    by (cases "addTrack (combined_track e firstTrack) createFile")
  from combine_loop_parseable [OF assms] obtain ev2 st2 where
    l: "combine_loop e tid (u0 # us) (0, out0) = (ev2, Resolved st2)" by blast
  show ?thesis
    by (simp add: combine_output_def f r t a l getInfo_def del: combine_loop.simps)
qed

lemma combineVideos_parseable:
  assumes "list_all (parseable e) (u0 # u1 # us)"
  shows "\<exists>ev r. combineVideos e (u0 # u1 # us) = (ev, Resolved r)"
proof -
  from combine_output_parseable [OF assms] obtain ev out where
    "combine_output e (u0 # u1 # us) = (ev, Resolved out)" by blast
  then show ?thesis by (simp add: combineVideos_def)
qed

section \<open>Facts about the example containers\<close>

lemma ex_parse_1: "parse ex_env [1] = Ready ex_info ex_batches"
  by (simp add: ex_env_def ex_parse_def)





lemma ex_info_tracks: "tracks ex_info \<noteq> []"
  by (simp add: ex_info_def)




lemma ex_info_total_js: "js_lt (Finite 0) (totalDurationInSeconds ex_info)"
  by (simp add: totalDurationInSeconds_def ex_info_def)

lemma ex_info_not_le: "\<not> js_le (totalDurationInSeconds ex_info) (Finite 0)"
  by (simp add: totalDurationInSeconds_def ex_info_def)

lemma ex_numSegments_8: "numSegments ex_info 8 = Finite 3"
  by (simp add: numSegments_def totalDurationInSeconds_def ex_info_def ceiling_eq_iff)



lemma ex_parseable: "list_all (parseable ex_env) [''a'', ''b'']"
  by (simp add: parseable_def ex_env_def ex_fetch_def ex_parse_def ex_av_info_def ex_info_def)

section \<open>Properties of \<open>cutVideo\<close>\<close>

text \<open>
  C9. A parseable source with at least one track and a positive total duration, cut
  with a negative segment duration: \<open>numSegments\<close> is not positive, no segment file
  is created (the only files are the two parsers), every sample is dropped, and the
  promise resolves with the empty list, since the check for an empty result asks for
  \<open>numSegments > 0\<close>.
\<close>

theorem cutVideo_negative_segmentDuration:
  assumes "parse e b = Ready info batches" and "tracks info \<noteq> []"
    and "js_lt (Finite 0) (totalDurationInSeconds info)"
    and "segmentDuration < 0"
  shows "cutVideo e b segmentDuration =
           ([CreateFile, AppendBuffer b, CreateFile, AppendBuffer b], Resolved [])"
proof -
  have nle: "\<not> js_le (totalDurationInSeconds info) (Finite 0)"
    using assms(3) by (cases "totalDurationInSeconds info") auto
  have lc: "loop_count (numSegments info segmentDuration) = Some 0"
    and npos: "\<not> js_lt (Finite 0) (numSegments info segmentDuration)"
    using loop_count_negative [OF assms(3,4)] by (simp_all add: numSegments_def)
  have "length (segment_files info batches segmentDuration (numSegments info segmentDuration) 0) = 0"
    by (rule length_segment_files)
  then have sf: "segment_files info batches segmentDuration (numSegments info segmentDuration) 0 = []"
    by (simp only: length_0_conv)
  show ?thesis
    by (simp add: cutVideo_def getInfo_Ready [OF assms(1,2)] nle lc assms(1) sf onFlush_def npos)
qed

text \<open>The run on the example container \<open>[1]\<close> with segment duration \<open>-8\<close>.\<close>

theorem cutVideo_negative_segmentDuration_witness:
  "parse ex_env [1] = Ready ex_info ex_batches \<and> tracks ex_info \<noteq> []
   \<and> js_lt (Finite 0) (totalDurationInSeconds ex_info) \<and> (- 8 :: rat) < 0
   \<and> cutVideo ex_env [1] (- 8)
       = ([CreateFile, AppendBuffer [1], CreateFile, AppendBuffer [1]], Resolved [])"
proof -
  have neg: "(- 8 :: rat) < 0" by simp
  from cutVideo_negative_segmentDuration [OF ex_parse_1 ex_info_tracks ex_info_total_js neg]
  show ?thesis using ex_parse_1 ex_info_tracks ex_info_total_js by simp
qed









text \<open>
  C6, as amended. When the source has been read to its end, \<open>cutVideo\<close> writes out
  every segment file with \<^verbatim>\<open>getBuffer()\<close>, once and in order, whether or not it has
  received a sample. The returned list has an entry for segment \<open>i\<close> if and only if
  that written buffer is not empty; so a segment file that received no sample
  contributes no entry provided the writer puts out an empty buffer for a file
  without samples.
\<close>

theorem cut_finalizes_every_builder:
  assumes "parse e b = Ready info batches" and "tracks info \<noteq> []"
    and "\<not> js_le (totalDurationInSeconds info) (Finite 0)"
    and "loop_count (numSegments info segmentDuration) = Some n"
  shows "let files = segment_files info batches segmentDuration
                       (numSegments info segmentDuration) n
         in finalized (fst (cutVideo e b segmentDuration)) = files
          \<and> (\<forall>clips. snd (cutVideo e b segmentDuration) = Resolved clips \<longrightarrow>
                clips = map (segment_clip e files) (nonempty_segments e files))
          \<and> (\<forall>i < n. i \<in> set (nonempty_segments e files) \<longleftrightarrow> getBuffer e (files ! i) \<noteq> [])
          \<and> ((\<forall>f. f_samples f = [] \<longrightarrow> getBuffer e f = []) \<longrightarrow>
               (\<forall>i < n. f_samples (files ! i) = [] \<longrightarrow> i \<notin> set (nonempty_segments e files)))"
proof -
  let ?files = "segment_files info batches segmentDuration (numSegments info segmentDuration) n"
  note c = cutVideo_flush [OF assms]
  have f: "finalized (fst (cutVideo e b segmentDuration)) = ?files"
    by (simp add: c onFlush_finalized)
  have r: "\<forall>clips. snd (cutVideo e b segmentDuration) = Resolved clips \<longrightarrow>
                clips = map (segment_clip e ?files) (nonempty_segments e ?files)"
    by (simp add: c onFlush_result)
  have m: "\<forall>i < n. i \<in> set (nonempty_segments e ?files) \<longleftrightarrow> getBuffer e (?files ! i) \<noteq> []"
    by (simp add: nonempty_segments_def)
  from f r m show ?thesis unfolding Let_def by blast
qed

text \<open>The example container \<open>[1]\<close> cut at 8 s.\<close>

theorem cut_finalizes_every_builder_witness:
  "parse ex_env [1] = Ready ex_info ex_batches \<and> tracks ex_info \<noteq> []
   \<and> \<not> js_le (totalDurationInSeconds ex_info) (Finite 0)
   \<and> loop_count (numSegments ex_info 8) = Some 3
   \<and> finalized (fst (cutVideo ex_env [1] 8))
       = segment_files ex_info ex_batches 8 (numSegments ex_info 8) 3"
proof -
  have lc: "loop_count (numSegments ex_info 8) = Some 3" by (simp add: ex_numSegments_8)
  from cut_finalizes_every_builder [OF ex_parse_1 ex_info_tracks ex_info_not_le lc]
  show ?thesis
    using ex_parse_1 ex_info_tracks ex_info_not_le lc unfolding Let_def by simp
qed

text \<open>
  The claim as stated fails: in that run the third segment file has received no
  sample, and it is written out with \<^verbatim>\<open>getBuffer()\<close> all the same.
\<close>

theorem empty_builder_finalized_counterexample:
  "length (finalized (fst (cutVideo ex_env [1] 8))) = 3
   \<and> f_samples (finalized (fst (cutVideo ex_env [1] 8)) ! 2) = []
   \<and> GetBuffer (finalized (fst (cutVideo ex_env [1] 8)) ! 2) \<in> set (fst (cutVideo ex_env [1] 8))"
  by code_simp




section \<open>Properties of \<open>combineVideos\<close>\<close>

text \<open>
  C4. A list with one element is passed through: the promise resolves with that very
  URL, in every environment (also one where the URL cannot be fetched or holds no
  parseable container), and the run makes no call at all: no fetch, no parser, no
  file created or written.
\<close>

theorem combineVideos_single_passthrough:
  "combineVideos e [x] = ([], Resolved x)"
  by (simp add: combineVideos_def)

text \<open>
  C8. An empty list is rejected with the error "No videos to combine.", and the run
  has made no call by then: in particular no \<^verbatim>\<open>MP4Box.createFile()\<close>.
\<close>

theorem combineVideos_empty_rejected:
  "combineVideos e [] = ([], Rejected NoVideosToCombine)"
  by (simp add: combineVideos_def)




text \<open>
  C10. For two or more parseable sources \<open>combineVideos\<close> resolves, and the samples
  of the container it writes out are, in this order: the samples of the first source with
  DTS and CTS unchanged, then the samples of each later source in input order, those
  of source \<open>k\<close> moved by the sum of the durations reported for the sources before it.
\<close>

theorem combine_sources_in_order:
  assumes "list_all (parseable e) (u0 # u1 # us)"
  shows "\<exists>ev r out. combineVideos e (u0 # u1 # us) = (ev, Resolved r)
         \<and> finalized ev = [out]
         \<and> map snd (f_samples out)
             = first_track_samples e u0 @ chained e (reported_duration e u0) (u1 # us)
         \<and> map snd (f_samples out)
             = concat (map (\<lambda>k. map (offset_sample (\<Sum>j<k. reported_duration e ((u0 # u1 # us) ! j)))
                                   (first_track_samples e ((u0 # u1 # us) ! k)))
                         [0..<length (u0 # u1 # us)])"
proof -
  from combineVideos_parseable [OF assms(1)] obtain ev r where
    cv: "combineVideos e (u0 # u1 # us) = (ev, Resolved r)" by blast
  from combineVideos_Resolved [OF cv] obtain ev' out where
    c: "combine_output e (u0 # u1 # us) = (ev', Resolved out)"
    and f: "finalized ev = [out]"
    by blast
  from combine_output_Resolved [OF c] have
    fs: "f_samples out = map (Pair 1) (chained e 0 (u0 # u1 # us))"
    by auto
  have m: "map snd (f_samples out) = chained e 0 (u0 # u1 # us)"
    unfolding fs by (simp add: comp_def)
  have a: "map snd (f_samples out)
             = first_track_samples e u0 @ chained e (reported_duration e u0) (u1 # us)"
    unfolding m by simp
  have b: "map snd (f_samples out)
             = concat (map (\<lambda>k. map (offset_sample (\<Sum>j<k. reported_duration e ((u0 # u1 # us) ! j)))
                                   (first_track_samples e ((u0 # u1 # us) ! k)))
                         [0..<length (u0 # u1 # us)])"
    unfolding m using chained_concat [of e 0 "u0 # u1 # us"] by simp
  from cv f a b show ?thesis by blast
qed

text \<open>The example sources \<open>''a''\<close> and \<open>''b''\<close> combined.\<close>

theorem combine_sources_in_order_witness:
  "list_all (parseable ex_env) [''a'', ''b'']
   \<and> first_track_samples ex_env ''a'' = [ex_sample 0 0, ex_sample 2000 2000]
   \<and> chained ex_env (reported_duration ex_env ''a'') [''b''] = [ex_sample 4000 5000]
   \<and> (\<exists>ev r out. combineVideos ex_env [''a'', ''b''] = (ev, Resolved r)
         \<and> finalized ev = [out]
         \<and> map snd (f_samples out)
             = first_track_samples ex_env ''a''
                 @ chained ex_env (reported_duration ex_env ''a'') [''b''])"
proof -
  have a: "first_track_samples ex_env ''a'' = [ex_sample 0 0, ex_sample 2000 2000]"
    by code_simp
  have b: "chained ex_env (reported_duration ex_env ''a'') [''b''] = [ex_sample 4000 5000]"
    by code_simp
  from combine_sources_in_order [OF ex_parseable]
  have "\<exists>ev r out. combineVideos ex_env [''a'', ''b''] = (ev, Resolved r)
         \<and> finalized ev = [out]
         \<and> map snd (f_samples out)
             = first_track_samples ex_env ''a''
                 @ chained ex_env (reported_duration ex_env ''a'') [''b'']"
    by blast
  then show ?thesis using a b ex_parseable by blast
qed

end
